theory Spec2Isabelle
  imports Main "HOL-Library.AList" "HOL-Library.Sublist"
begin

section \<open>Attribute values and diagnostics\<close>

text \<open>
  The provider reads and writes attributes through the plugin framework's
  \<^verbatim>\<open>types.String\<close>: a value that is null, unknown, or a known Go string.
  \<^verbatim>\<open>ValueString()\<close> reads a null or unknown value as the empty string, and
  \<^verbatim>\<open>Equal\<close> compares first the tag and then, for two known values, the strings.
\<close>

datatype tfstring = StringNull | StringUnknown | StringValue string

fun IsNull :: "tfstring \<Rightarrow> bool" where
  "IsNull StringNull = True"
| "IsNull _ = False"

fun IsUnknown :: "tfstring \<Rightarrow> bool" where
  "IsUnknown StringUnknown = True"
| "IsUnknown _ = False"

fun ValueString :: "tfstring \<Rightarrow> string" where
  "ValueString (StringValue s) = s"
| "ValueString _ = []"

fun Equal :: "tfstring \<Rightarrow> tfstring \<Rightarrow> bool" where
  "Equal StringNull StringNull = True"
| "Equal StringUnknown StringUnknown = True"
| "Equal (StringValue a) (StringValue b) = (a = b)"
| "Equal _ _ = False"

text \<open>
  A GraphQL error entry carries a message, a path and an extensions table; the client
  returns either a list of such entries (\<^verbatim>\<open>gqlerror.List\<close>) or some other Go error
  (a transport failure). \<^verbatim>\<open>errors.As(err, &errList)\<close> succeeds on the first kind only.
\<close>

record gqlerror =
  Message :: string
  Path :: string
  Extensions :: "(string \<times> string) list"

datatype error = GqlErrorList "gqlerror list" | OtherError string

fun As_errList :: "error option \<Rightarrow> gqlerror list option" where
  "As_errList (Some (GqlErrorList el)) = Some el"
| "As_errList _ = None"

text \<open>
  Diagnostics are collected in order; the framework's \<^verbatim>\<open>Append\<close> skips a diagnostic that
  the collection already contains, and \<^verbatim>\<open>AddError\<close> and \<^verbatim>\<open>AddWarning\<close> append one
  diagnostic. The detail of a diagnostic is a literal text or the rendering
  \<^verbatim>\<open>err.Error()\<close> of an error, which is kept symbolic.
\<close>

datatype severity = SeverityError | SeverityWarning

datatype detail = Text string | ErrorText error

record diagnostic =
  Severity :: severity
  Summary :: string
  Detail :: detail

type_synonym diagnostics = "diagnostic list"

definition Append :: "diagnostics \<Rightarrow> diagnostics \<Rightarrow> diagnostics" where
  "Append ds new = fold (\<lambda>d acc. if d \<in> set acc then acc else acc @ [d]) new ds"

definition AddError :: "string \<Rightarrow> detail \<Rightarrow> diagnostics \<Rightarrow> diagnostics" where
  "AddError s d ds = Append ds [\<lparr>Severity = SeverityError, Summary = s, Detail = d\<rparr>]"

definition AddWarning :: "string \<Rightarrow> detail \<Rightarrow> diagnostics \<Rightarrow> diagnostics" where
  "AddWarning s d ds = Append ds [\<lparr>Severity = SeverityWarning, Summary = s, Detail = d\<rparr>]"

definition HasError :: "diagnostics \<Rightarrow> bool" where
  "HasError ds = (SeverityError \<in> set (map Severity ds))"

section \<open>Secrets of an app\<close>

text \<open>
  \<^verbatim>\<open>appSecret\<close> and \<^verbatim>\<open>secretMap\<close>. A Go map is modelled as an association list
  with one entry per key; \<^verbatim>\<open>range\<close> visits the entries in list order, which stands
  for the unspecified order of the Go runtime. A nil map and an empty map are both
  the empty list: the code only ranges over, looks up in and deletes from a possibly
  nil map, and \<^verbatim>\<open>setSecret\<close> allocates before it writes.
\<close>

record appSecret =
  Value :: tfstring
  Digest :: tfstring
  CreatedAt :: tfstring

type_synonym secretMap = "(string \<times> appSecret) list"

definition keys :: "secretMap \<Rightarrow> string set" where
  "keys m = set (map fst m)"

text \<open>
  A secret as the API reports it. The time stamp is represented by its
  \<^verbatim>\<open>Format(time.RFC3339)\<close> rendering, the only way the code reads it.
\<close>

record apiSecret =
  ApiId :: string
  Name :: string
  ApiDigest :: string
  ApiCreatedAt :: string

record flyAppResourceData =
  AppName :: tfstring
  Org :: tfstring
  OrgId :: tfstring
  AppUrl :: tfstring
  Id :: tfstring
  Secrets :: secretMap

definition setSecret :: "string \<Rightarrow> appSecret \<Rightarrow> flyAppResourceData \<Rightarrow> flyAppResourceData" where
  "setSecret name secret d = d\<lparr>Secrets := AList.update name secret (Secrets d)\<rparr>"

section \<open>Drift detector\<close>

text \<open>
  \<^verbatim>\<open>updateSecretFromApi\<close>: \<open>s\<close> is read before the loop (a missing key reads as the
  zero secret); the loop stops at the first API secret with the wanted name and
  replaces the entry when digest or time stamp differ; when the loop ends without a
  match the entry is deleted.
\<close>

definition zeroSecret :: appSecret where
  "zeroSecret = \<lparr>Value = StringNull, Digest = StringNull, CreatedAt = StringNull\<rparr>"

definition lookupSecret :: "secretMap \<Rightarrow> string \<Rightarrow> appSecret" where
  "lookupSecret m name = (case map_of m name of None \<Rightarrow> zeroSecret | Some s \<Rightarrow> s)"

fun updateSecretLoop :: "string \<Rightarrow> appSecret \<Rightarrow> apiSecret list \<Rightarrow> secretMap \<Rightarrow> secretMap" where
  "updateSecretLoop name s [] m = AList.delete name m"
| "updateSecretLoop name s (as # rest) m =
     (if Name as \<noteq> name then updateSecretLoop name s rest m
      else if ApiDigest as \<noteq> ValueString (Digest s) \<or> ApiCreatedAt as \<noteq> ValueString (CreatedAt s)
      then AList.update name
             \<lparr>Value = StringUnknown, Digest = StringValue (ApiDigest as),
              CreatedAt = StringValue (ApiCreatedAt as)\<rparr> m
      else m)"

definition updateSecretFromApi :: "string \<Rightarrow> apiSecret list \<Rightarrow> secretMap \<Rightarrow> secretMap" where
  "updateSecretFromApi name a m = updateSecretLoop name (lookupSecret m name) a m"

text \<open>
  \<^verbatim>\<open>updateSecretsFromApi\<close> ranges over the keys of the map while each step rewrites or
  deletes the entry of the key it is visiting only, so every key of the map at entry
  is visited exactly once.
\<close>

definition updateSecretsFromApi :: "apiSecret list \<Rightarrow> secretMap \<Rightarrow> secretMap" where
  "updateSecretsFromApi a m = fold (\<lambda>k. updateSecretFromApi k a) (map fst m) m"

section \<open>The remote client\<close>

text \<open>
  The generated GraphQL client is a collaborator of the provider. It is a parameter of
  the model: each operation maps its request to the pair of error and payload that the
  Go function returns. Every call the provider issues is recorded, in order.
\<close>

record SecretInput =
  Key :: string
  InputValue :: string

record SetSecretsInput =
  AppId :: string
  InputSecrets :: "SecretInput list"
  ReplaceAll :: bool

datatype call =
    CallUnsetSecrets string "string list"
  | CallSetSecrets SetSecretsInput
  | CallGetSecrets string

record client =
  UnsetSecrets :: "string \<Rightarrow> string list \<Rightarrow> error option"
  SetSecrets :: "SetSecretsInput \<Rightarrow> error option \<times> apiSecret list"
  GetSecrets :: "string \<Rightarrow> error option \<times> apiSecret list"

fun isMutation :: "call \<Rightarrow> bool" where
  "isMutation (CallUnsetSecrets _ _) = True"
| "isMutation (CallSetSecrets _) = True"
| "isMutation (CallGetSecrets _) = False"

section \<open>Secret reconciler\<close>

text \<open>\<^verbatim>\<open>strings.Contains(s, substr)\<close>: \<open>substr\<close> occurs in \<open>s\<close> at some position.\<close>

fun Contains :: "string \<Rightarrow> string \<Rightarrow> bool" where
  "Contains [] substr = (substr = [])"
| "Contains (c # cs) substr = (prefix substr (c # cs) \<or> Contains cs substr)"

text \<open>
  The loop of \<^verbatim>\<open>getSecretComputedValues\<close> over the fetched secrets: an entry whose
  name is a key of \<open>secrets\<close> overwrites digest and time stamp and carries the value
  over; the loop runs to the end of the list.
\<close>

fun computedValuesLoop :: "apiSecret list \<Rightarrow> secretMap \<Rightarrow> secretMap" where
  "computedValuesLoop [] secrets = secrets"
| "computedValuesLoop (as # rest) secrets =
     (case map_of secrets (Name as) of
        Some s \<Rightarrow>
          computedValuesLoop rest
            (AList.update (Name as)
               \<lparr>Value = Value s, Digest = StringValue (ApiDigest as),
                CreatedAt = StringValue (ApiCreatedAt as)\<rparr> secrets)
      | None \<Rightarrow> computedValuesLoop rest secrets)"

definition getSecretComputedValues ::
  "client \<Rightarrow> string \<Rightarrow> secretMap \<Rightarrow> diagnostics \<Rightarrow> call list \<times> secretMap \<times> diagnostics" where
  "getSecretComputedValues c appName secrets diags =
     (case GetSecrets c appName of
        (err, apiSecrets) \<Rightarrow>
          let diags1 = (case err of
                          Some e \<Rightarrow> AddError ''GetSecrets failed'' (ErrorText e) diags
                        | None \<Rightarrow> diags)
          in ([CallGetSecrets appName], computedValuesLoop apiSecrets secrets, diags1))"

text \<open>The loop of \<^verbatim>\<open>setSecrets\<close> over the secrets of a successful response.\<close>

fun setSecretsLoop :: "apiSecret list \<Rightarrow> secretMap \<Rightarrow> secretMap" where
  "setSecretsLoop [] secrets = secrets"
| "setSecretsLoop (s # rest) secrets =
     (case map_of secrets (Name s) of
        None \<Rightarrow> setSecretsLoop rest secrets
      | Some old \<Rightarrow>
          setSecretsLoop rest
            (AList.update (Name s)
               \<lparr>Value = Value old, Digest = StringValue (ApiDigest s),
                CreatedAt = StringValue (ApiCreatedAt s)\<rparr> secrets))"

definition secretInputs :: "secretMap \<Rightarrow> SecretInput list" where
  "secretInputs secrets = map (\<lambda>(k, v). \<lparr>Key = k, InputValue = ValueString (Value v)\<rparr>) secrets"

text \<open>
  The test \<^verbatim>\<open>errors.As(err, &errList) && len(errList) == 1 &&
  strings.Contains(errList[0].Message, "No change detected")\<close>.
\<close>

definition isNoChange :: "error \<Rightarrow> bool" where
  "isNoChange err =
     (case As_errList (Some err) of
        None \<Rightarrow> False
      | Some errList \<Rightarrow>
          length errList = 1 \<and> Contains (Message (errList ! 0)) ''No change detected'')"

definition driftText :: string where
  "driftText = ''Secrets may have been added or changed outside of Terraform. Refreshing secret state, you may need to re-apply your Terraform config.''"

definition setSecrets ::
  "client \<Rightarrow> string \<Rightarrow> secretMap \<Rightarrow> diagnostics \<Rightarrow> call list \<times> secretMap \<times> diagnostics" where
  "setSecrets c appName secrets diags =
     (let req = \<lparr>AppId = appName, InputSecrets = secretInputs secrets, ReplaceAll = False\<rparr>
      in case SetSecrets c req of
           (Some err, resp) \<Rightarrow>
             if isNoChange err then
               (let diags1 = AddWarning ''SetSecrets was no-op'' (ErrorText err) diags;
                    diags2 = AddWarning ''State may have drifted'' (Text driftText) diags1
                in case getSecretComputedValues c appName secrets diags2 of
                     (calls, secrets1, diags3) \<Rightarrow> (CallSetSecrets req # calls, secrets1, diags3))
             else ([CallSetSecrets req], secrets,
                   AddError ''SetSecrets errored'' (ErrorText err) diags)
         | (None, resp) \<Rightarrow> ([CallSetSecrets req], setSecretsLoop resp secrets, diags))"

section \<open>Update of the app resource\<close>

text \<open>
  What an operation leaves in \<^verbatim>\<open>resp.State\<close>: untouched, removed
  (\<^verbatim>\<open>RemoveResource\<close>), or the value of the last \<^verbatim>\<open>State.Set\<close>.
\<close>

datatype 'a stateWrite = Untouched | Removed | Written 'a

record updateResult =
  Diagnostics :: diagnostics
  NewState :: "flyAppResourceData stateWrite"
  Calls :: "call list"

text \<open>
  The first loop of \<^verbatim>\<open>Update\<close>: every key of the state that the plan does not have is
  appended to \<open>removedSecrets\<close> and deleted from the state's map.
\<close>

fun removedLoop :: "string list \<Rightarrow> secretMap \<Rightarrow> string list \<times> secretMap \<Rightarrow> string list \<times> secretMap" where
  "removedLoop [] planSecrets acc = acc"
| "removedLoop (k # ks) planSecrets (removedSecrets, stateSecrets) =
     (if map_of planSecrets k = None
      then removedLoop ks planSecrets (removedSecrets @ [k], AList.delete k stateSecrets)
      else removedLoop ks planSecrets (removedSecrets, stateSecrets))"

text \<open>
  The second loop: a planned secret goes into \<open>newSecrets\<close> when the state has no
  entry for its key or the entry's value is not \<^verbatim>\<open>Equal\<close> to the planned value.
\<close>

fun newSecretsLoop :: "secretMap \<Rightarrow> secretMap \<Rightarrow> secretMap \<Rightarrow> secretMap" where
  "newSecretsLoop [] stateSecrets newSecrets = newSecrets"
| "newSecretsLoop ((k, ps) # rest) stateSecrets newSecrets =
     (case map_of stateSecrets k of
        None \<Rightarrow> newSecretsLoop rest stateSecrets (AList.update k ps newSecrets)
      | Some s \<Rightarrow>
          if \<not> Equal (Value s) (Value ps)
          then newSecretsLoop rest stateSecrets (AList.update k ps newSecrets)
          else newSecretsLoop rest stateSecrets newSecrets)"

text \<open>
  The differ as \<^verbatim>\<open>Update\<close> computes it: the removed keys with the state after their
  deletion, and the secrets to set. The set map is split by the disjunct of the test
  that admitted a key: no entry in the state (added), or a different value (changed).
\<close>

definition removedSecrets :: "secretMap \<Rightarrow> secretMap \<Rightarrow> string list \<times> secretMap" where
  "removedSecrets planSecrets stateSecrets =
     removedLoop (map fst stateSecrets) planSecrets ([], stateSecrets)"

definition toRemove :: "secretMap \<Rightarrow> secretMap \<Rightarrow> string list" where
  "toRemove planSecrets stateSecrets = fst (removedSecrets planSecrets stateSecrets)"

definition newSecretsOf :: "secretMap \<Rightarrow> secretMap \<Rightarrow> secretMap" where
  "newSecretsOf planSecrets stateSecrets =
     newSecretsLoop planSecrets (snd (removedSecrets planSecrets stateSecrets)) []"

definition toAdd :: "secretMap \<Rightarrow> secretMap \<Rightarrow> string list" where
  "toAdd planSecrets stateSecrets =
     filter (\<lambda>k. map_of (snd (removedSecrets planSecrets stateSecrets)) k = None)
       (map fst (newSecretsOf planSecrets stateSecrets))"

definition toChange :: "secretMap \<Rightarrow> secretMap \<Rightarrow> string list" where
  "toChange planSecrets stateSecrets =
     filter (\<lambda>k. map_of (snd (removedSecrets planSecrets stateSecrets)) k \<noteq> None)
       (map fst (newSecretsOf planSecrets stateSecrets))"

text \<open>
  \<^verbatim>\<open>Update\<close>, second half (from "Set secrets that were changed or newly appeared in
  config"). \<open>written\<close> is what \<^verbatim>\<open>resp.State\<close> holds so far and \<open>calls\<close> the calls
  issued so far.
\<close>

definition UpdateSetSecrets ::
  "client \<Rightarrow> flyAppResourceData \<Rightarrow> flyAppResourceData \<Rightarrow> diagnostics \<Rightarrow>
   flyAppResourceData stateWrite \<Rightarrow> call list \<Rightarrow> updateResult" where
  "UpdateSetSecrets c plan state diags written calls =
     (let newSecrets = newSecretsLoop (Secrets plan) (Secrets state) []
      in if length newSecrets > 0 then
           (case setSecrets c (ValueString (AppName state)) newSecrets diags of
              (calls1, newSecrets1, diags1) \<Rightarrow>
                let state1 = fold (\<lambda>(k, s). setSecret k s) newSecrets1 state
                in if HasError diags1
                   then \<lparr>Diagnostics = diags1, NewState = written, Calls = calls @ calls1\<rparr>
                   else \<lparr>Diagnostics = diags1, NewState = Written state1, Calls = calls @ calls1\<rparr>)
         else \<lparr>Diagnostics = diags, NewState = Written state, Calls = calls\<rparr>)"

text \<open>
  The two checks of \<^verbatim>\<open>Update\<close> on the immutable attributes: each appends an error
  diagnostic, and control goes on to the next statement.
\<close>

definition immutableChecks ::
  "flyAppResourceData \<Rightarrow> flyAppResourceData \<Rightarrow> diagnostics \<Rightarrow> diagnostics" where
  "immutableChecks plan state diags =
     (let diags1 =
            (if \<not> IsUnknown (Org plan) \<and> ValueString (Org plan) \<noteq> ValueString (Org state)
             then AddError ''Can't mutate org of existing app''
                    (Text (''Can't switch org'' @ ValueString (Org state) @ '' to '' @ ValueString (Org plan)))
                    diags
             else diags)
      in if \<not> IsNull (AppName plan) \<and> ValueString (AppName plan) \<noteq> ValueString (AppName state)
         then AddError ''Can't mutate Name of existing app''
                (Text (''Can't switch name '' @ ValueString (AppName state) @ '' to '' @ ValueString (AppName plan)))
                diags1
         else diags1)"

text \<open>
  \<^verbatim>\<open>Update\<close>. \<open>planDiags\<close> and \<open>plan\<close> are what \<^verbatim>\<open>req.Plan.Get\<close> yields, \<open>stateDiags\<close>
  and \<open>state\<close> what \<^verbatim>\<open>resp.State.Get\<close> yields; the diagnostics of the response are
  empty at entry. \<^verbatim>\<open>State.Set\<close> of a decoded value adds no diagnostic.
\<close>

definition Update ::
  "client \<Rightarrow> diagnostics \<Rightarrow> flyAppResourceData \<Rightarrow> diagnostics \<Rightarrow> flyAppResourceData \<Rightarrow> updateResult" where
  "Update c planDiags plan stateDiags state =
     (if HasError (Append [] planDiags)
      then \<lparr>Diagnostics = Append [] planDiags, NewState = Untouched, Calls = []\<rparr>
      else
        let diags = immutableChecks plan state (Append (Append [] planDiags) stateDiags);
            removed = fst (removedSecrets (Secrets plan) (Secrets state));
            state1 = state\<lparr>Secrets := snd (removedSecrets (Secrets plan) (Secrets state))\<rparr>
        in if length removed > 0 then
             (let appName = ValueString (AppName state1);
                  unset = CallUnsetSecrets appName removed
              in case UnsetSecrets c appName removed of
                   Some err \<Rightarrow>
                     \<lparr>Diagnostics = AddError ''UnsetSecrets failed'' (ErrorText err) diags,
                      NewState = Untouched, Calls = [unset]\<rparr>
                 | None \<Rightarrow>
                     if HasError diags
                     then \<lparr>Diagnostics = diags, NewState = Written state1, Calls = [unset]\<rparr>
                     else UpdateSetSecrets c plan state1 diags (Written state1) [unset])
           else UpdateSetSecrets c plan state1 diags Untouched [])"

section \<open>Conditional freeze modifier\<close>

text \<open>
  The plan-modifier request of the framework: the attribute's path, its prior state
  and config values, and the whole state and config, read through
  \<^verbatim>\<open>GetAttribute\<close>, which yields diagnostics and the value read.
\<close>

type_synonym attrPath = "string list"

definition ParentPath :: "attrPath \<Rightarrow> attrPath" where
  "ParentPath p = butlast p"

definition AtName :: "string \<Rightarrow> attrPath \<Rightarrow> attrPath" where
  "AtName n p = p @ [n]"

record StringRequest =
  ReqPath :: attrPath
  StateValue :: tfstring
  ConfigValue :: tfstring
  ReqState :: "attrPath \<Rightarrow> diagnostics \<times> tfstring"
  ReqConfig :: "attrPath \<Rightarrow> diagnostics \<times> tfstring"

record StringResponse =
  PlanValue :: tfstring
  RespDiagnostics :: diagnostics

definition secretValueUnchanged :: "StringRequest \<Rightarrow> bool \<times> diagnostics" where
  "secretValueUnchanged req =
     (let valuePath = AtName ''value'' (ParentPath (ReqPath req))
      in case ReqState req valuePath of
           (diags1, stateValue) \<Rightarrow>
             (case ReqConfig req valuePath of
                (diags2, configValue) \<Rightarrow>
                  (Equal stateValue configValue, Append (Append [] diags1) diags2)))"

definition PlanModifyString ::
  "(StringRequest \<Rightarrow> bool \<times> diagnostics) \<Rightarrow> StringRequest \<Rightarrow> StringResponse \<Rightarrow> StringResponse" where
  "PlanModifyString condition req resp =
     (if IsNull (StateValue req) then resp
      else if \<not> IsUnknown (PlanValue resp) then resp
      else if IsUnknown (ConfigValue req) then resp
      else case condition req of
             (ok, diags) \<Rightarrow>
               let resp1 = resp\<lparr>RespDiagnostics := Append (RespDiagnostics resp) diags\<rparr>
               in if HasError (RespDiagnostics resp1) then resp1
                  else if \<not> ok then resp1
                  else resp1\<lparr>PlanValue := StateValue req\<rparr>)"

section \<open>The standalone app-secret resource\<close>

record appSecretResourceData =
  AppID :: tfstring
  ID :: tfstring
  SecretName :: tfstring
  SecretValue :: tfstring
  SecretDigest :: tfstring
  SecretCreatedAt :: tfstring

fun refreshSecretLoop :: "apiSecret list \<Rightarrow> appSecretResourceData \<Rightarrow> appSecretResourceData" where
  "refreshSecretLoop [] data = data"
| "refreshSecretLoop (sec # rest) data =
     (if Name sec = ValueString (SecretName data) then
        (let id = StringValue (ApiId sec);
             createdAt = StringValue (ApiCreatedAt sec);
             digest = StringValue (ApiDigest sec);
             data1 = (if ID data \<noteq> id \<or> SecretCreatedAt data \<noteq> createdAt \<or> SecretDigest data \<noteq> digest
                      then data\<lparr>SecretValue := StringUnknown\<rparr> else data)
         in refreshSecretLoop rest
              (data1\<lparr>ID := id, SecretCreatedAt := createdAt, SecretDigest := digest\<rparr>))
      else refreshSecretLoop rest data)"

definition refreshSecret :: "client \<Rightarrow> appSecretResourceData \<Rightarrow> error option \<times> appSecretResourceData" where
  "refreshSecret c data =
     (case GetSecrets c (ValueString (AppID data)) of
        (Some err, rep) \<Rightarrow> (Some err, data)
      | (None, rep) \<Rightarrow> (None, refreshSecretLoop rep data))"

text \<open>
  Go checks every index expression against the length of the slice and panics when
  it is out of range.
\<close>

datatype panic = IndexOutOfRange nat nat

definition index :: "'a list \<Rightarrow> nat \<Rightarrow> panic + 'a" where
  "index xs i = (if i < length xs then Inr (xs ! i) else Inl (IndexOutOfRange i (length xs)))"

record readResult =
  ReadDiagnostics :: diagnostics
  ReadState :: "appSecretResourceData stateWrite"

text \<open>
  The test of \<^verbatim>\<open>Read\<close>, evaluated left to right with short-circuit:
  \<^verbatim>\<open>errors.As(err, &errList) && len(errList) == 1 && errList[1].Extensions["code"] == "NOT_FOUND"\<close>.
\<close>

definition isNotFound :: "error option \<Rightarrow> panic + bool" where
  "isNotFound err =
     (case As_errList err of
        None \<Rightarrow> Inr False
      | Some errList \<Rightarrow>
          if length errList = 1
          then (case index errList 1 of
                  Inl p \<Rightarrow> Inl p
                | Inr e \<Rightarrow> Inr (map_of (Extensions e) ''code'' = Some ''NOT_FOUND''))
          else Inr False)"

definition Read :: "client \<Rightarrow> diagnostics \<Rightarrow> appSecretResourceData \<Rightarrow> panic + readResult" where
  "Read c getDiags data =
     (if HasError (Append [] getDiags)
      then Inr \<lparr>ReadDiagnostics = Append [] getDiags, ReadState = Untouched\<rparr>
      else case refreshSecret c data of
             (err, data1) \<Rightarrow>
               (case isNotFound err of
                  Inl p \<Rightarrow> Inl p
                | Inr True \<Rightarrow> Inr \<lparr>ReadDiagnostics = Append [] getDiags, ReadState = Removed\<rparr>
                | Inr False \<Rightarrow>
                    (case err of
                       Some e \<Rightarrow>
                         Inr \<lparr>ReadDiagnostics =
                                AddError ''Refreshing failed'' (ErrorText e) (Append [] getDiags),
                              ReadState = Untouched\<rparr>
                     | None \<Rightarrow>
                         Inr \<lparr>ReadDiagnostics = Append [] getDiags, ReadState = Written data1\<rparr>)))"

section \<open>Auxiliary notions for the statements\<close>

text \<open>
  What the drift detector makes of the entry \<open>old\<close> of key \<open>k\<close>, given the snapshot
  \<open>a\<close>: the first snapshot entry of that name decides.
\<close>

definition refreshed :: "apiSecret list \<Rightarrow> string \<Rightarrow> appSecret option \<Rightarrow> appSecret option" where
  "refreshed a k old =
     (case find (\<lambda>as. Name as = k) a of
        None \<Rightarrow> None
      | Some as \<Rightarrow>
          let s = (case old of None \<Rightarrow> zeroSecret | Some s \<Rightarrow> s) in
          if ApiDigest as \<noteq> ValueString (Digest s) \<or> ApiCreatedAt as \<noteq> ValueString (CreatedAt s)
          then Some \<lparr>Value = StringUnknown, Digest = StringValue (ApiDigest as),
                     CreatedAt = StringValue (ApiCreatedAt as)\<rparr>
          else old)"

text \<open>A client that answers every request of a kind with the same response.\<close>

definition constClient ::
  "error option \<Rightarrow> error option \<times> apiSecret list \<Rightarrow> error option \<times> apiSecret list \<Rightarrow> client" where
  "constClient u s g = \<lparr>UnsetSecrets = (\<lambda>_ _. u), SetSecrets = (\<lambda>_. s), GetSecrets = (\<lambda>_. g)\<rparr>"

text \<open>Sample data: a secret with a known value, and app data with given name and secrets.\<close>

definition secretOf :: "string \<Rightarrow> tfstring \<Rightarrow> tfstring \<Rightarrow> appSecret" where
  "secretOf v d t = \<lparr>Value = StringValue v, Digest = d, CreatedAt = t\<rparr>"

definition appData :: "string \<Rightarrow> secretMap \<Rightarrow> flyAppResourceData" where
  "appData n m =
     \<lparr>AppName = StringValue n, Org = StringValue ''org'', OrgId = StringValue ''o1'',
      AppUrl = StringValue ''url'', Id = StringValue ''id'', Secrets = m\<rparr>"

definition apiSecretOf :: "string \<Rightarrow> string \<Rightarrow> string \<Rightarrow> apiSecret" where
  "apiSecretOf n d t = \<lparr>ApiId = ''i'', Name = n, ApiDigest = d, ApiCreatedAt = t\<rparr>"

section \<open>Diagnostics: properties\<close>

lemma set_Append: "set (Append ds new) = set ds \<union> set new"
  unfolding Append_def by (induction new arbitrary: ds) auto

lemma HasError_Append: "HasError (Append xs ys) \<longleftrightarrow> HasError xs \<or> HasError ys"
  by (auto simp: HasError_def set_Append)

lemma HasError_Nil: "\<not> HasError []"
  by (simp add: HasError_def)

lemma HasError_AddError: "HasError (AddError s d ds)"
  by (simp add: HasError_def AddError_def set_Append)

lemma HasError_AddWarning: "HasError (AddWarning s d ds) = HasError ds"
  by (simp add: HasError_def AddWarning_def set_Append)

lemma set_AddError:
  "set (AddError s d ds) = insert \<lparr>Severity = SeverityError, Summary = s, Detail = d\<rparr> (set ds)"
  by (simp add: AddError_def set_Append)

lemma set_AddWarning:
  "set (AddWarning s d ds) = insert \<lparr>Severity = SeverityWarning, Summary = s, Detail = d\<rparr> (set ds)"
  by (simp add: AddWarning_def set_Append)

section \<open>Drift detector: properties\<close>

lemma map_of_updateSecretLoop_other:
  "k \<noteq> name \<Longrightarrow> map_of (updateSecretLoop name s a m) k = map_of m k"
  by (induction a) (simp_all add: update_conv')

lemma map_of_updateSecretLoop_same:
  "map_of (updateSecretLoop name s a m) name =
     (case find (\<lambda>as. Name as = name) a of
        None \<Rightarrow> None
      | Some as \<Rightarrow>
          if ApiDigest as \<noteq> ValueString (Digest s) \<or> ApiCreatedAt as \<noteq> ValueString (CreatedAt s)
          then Some \<lparr>Value = StringUnknown, Digest = StringValue (ApiDigest as),
                     CreatedAt = StringValue (ApiCreatedAt as)\<rparr>
          else map_of m name)"
  by (induction a) (simp_all add: update_conv' delete_conv')

lemma map_of_updateSecretFromApi_same:
  "map_of (updateSecretFromApi k a m) k = refreshed a k (map_of m k)"
  by (simp add: updateSecretFromApi_def map_of_updateSecretLoop_same refreshed_def lookupSecret_def
      split: option.splits)

lemma map_of_updateSecretFromApi_other:
  "k \<noteq> name \<Longrightarrow> map_of (updateSecretFromApi name a m) k = map_of m k"
  by (simp add: updateSecretFromApi_def map_of_updateSecretLoop_other)

lemma refreshed_idem: "refreshed a k (refreshed a k x) = refreshed a k x"
  by (auto simp: refreshed_def Let_def zeroSecret_def split: option.splits)

lemma map_of_fold_updateSecretFromApi:
  "map_of (fold (\<lambda>k. updateSecretFromApi k a) ks m) k =
     (if k \<in> set ks then refreshed a k (map_of m k) else map_of m k)"
proof (induction ks arbitrary: m)
  case Nil
  then show ?case by simp
next
  case (Cons x ks)
  show ?case
  proof (cases "x = k")
    case True
    then show ?thesis
      by (simp add: Cons.IH map_of_updateSecretFromApi_same refreshed_idem)
  next
    case False
    then show ?thesis
      by (simp add: Cons.IH map_of_updateSecretFromApi_other)
  qed
qed

lemma map_of_updateSecretsFromApi:
  "map_of (updateSecretsFromApi a m) k =
     (case map_of m k of None \<Rightarrow> None | Some s \<Rightarrow> refreshed a k (Some s))"
  by (simp add: updateSecretsFromApi_def map_of_fold_updateSecretFromApi map_of_eq_None_iff
      split: option.splits) (metis domI domIff dom_map_of_conv_image_fst)

lemma keys_updateSecretsFromApi: "set (map fst (updateSecretsFromApi a m)) \<subseteq> set (map fst m)"
proof
  fix k assume "k \<in> set (map fst (updateSecretsFromApi a m))"
  then have "map_of (updateSecretsFromApi a m) k \<noteq> None"
    by (simp add: map_of_eq_None_iff)
  then have "map_of m k \<noteq> None"
    by (auto simp: map_of_updateSecretsFromApi split: option.splits)
  then show "k \<in> set (map fst m)"
    by (simp add: map_of_eq_None_iff)
qed

text \<open>
  Claim C3. Refreshing the observed secrets \<open>m\<close> against the snapshot \<open>a\<close> treats a
  managed key \<open>k\<close> with record \<open>s\<close> as follows. If no snapshot entry has the name \<open>k\<close>,
  the key is dropped. If the snapshot entry of that name has a digest or a created-at
  time stamp other than the recorded one, the value becomes unknown and digest and
  time stamp are the snapshot's. If both agree with the record, the record is kept as
  it is. The recorded digest and time stamp are compared through their string reading.
\<close>

theorem drift_detector_cases:
  "map_of m k = Some s \<Longrightarrow>
   (find (\<lambda>as. Name as = k) a = None \<longrightarrow> map_of (updateSecretsFromApi a m) k = None) \<and>
   (\<forall>as. find (\<lambda>as. Name as = k) a = Some as \<and>
         (ApiDigest as \<noteq> ValueString (Digest s) \<or> ApiCreatedAt as \<noteq> ValueString (CreatedAt s)) \<longrightarrow>
         map_of (updateSecretsFromApi a m) k =
           Some \<lparr>Value = StringUnknown, Digest = StringValue (ApiDigest as),
                 CreatedAt = StringValue (ApiCreatedAt as)\<rparr>) \<and>
   (\<forall>as. find (\<lambda>as. Name as = k) a = Some as \<and>
         ApiDigest as = ValueString (Digest s) \<and> ApiCreatedAt as = ValueString (CreatedAt s) \<longrightarrow>
         map_of (updateSecretsFromApi a m) k = Some s)"
  by (simp add: map_of_updateSecretsFromApi refreshed_def)

theorem drift_detector_cases_witness:
  "map_of (updateSecretsFromApi [] [(''TEST'', secretOf ''43'' (StringValue ''d1'') (StringValue ''t1''))])
     ''TEST'' = None \<and>
   map_of (updateSecretsFromApi [apiSecretOf ''TEST'' ''d2'' ''t1'']
             [(''TEST'', secretOf ''43'' (StringValue ''d1'') (StringValue ''t1''))]) ''TEST'' =
     Some \<lparr>Value = StringUnknown, Digest = StringValue ''d2'', CreatedAt = StringValue ''t1''\<rparr> \<and>
   map_of (updateSecretsFromApi [apiSecretOf ''TEST'' ''d1'' ''t1'']
             [(''TEST'', secretOf ''43'' (StringValue ''d1'') (StringValue ''t1''))]) ''TEST'' =
     Some (secretOf ''43'' (StringValue ''d1'') (StringValue ''t1''))"
proof -
  let ?s = "secretOf ''43'' (StringValue ''d1'') (StringValue ''t1'')"
  have h: "map_of [(''TEST'', ?s)] ''TEST'' = Some ?s" by simp
  show ?thesis
    using drift_detector_cases [OF h, of "[]"]
      drift_detector_cases [OF h, of "[apiSecretOf ''TEST'' ''d2'' ''t1'']"]
      drift_detector_cases [OF h, of "[apiSecretOf ''TEST'' ''d1'' ''t1'']"]
    by (simp add: apiSecretOf_def secretOf_def)
qed

section \<open>Differ: properties\<close>

lemma keys_dom: "keys m = dom (map_of m)"
  by (simp add: keys_def dom_map_of_conv_image_fst)

lemma map_of_None_keys: "map_of m k = None \<longleftrightarrow> k \<notin> keys m"
  by (simp add: keys_def map_of_eq_None_iff)

lemma in_keys_iff: "k \<in> keys m \<longleftrightarrow> (\<exists>v. (k, v) \<in> set m)"
  by (force simp: keys_def)

lemma keys_update: "keys (AList.update k v m) = insert k (keys m)"
  by (simp add: keys_def dom_update)

lemma fst_removedLoop:
  "fst (removedLoop ks P (r, st)) = r @ filter (\<lambda>k. map_of P k = None) ks"
  by (induction ks arbitrary: r st) simp_all

lemma map_of_snd_removedLoop:
  "map_of (snd (removedLoop ks P (r, st))) k =
     (if k \<in> set ks \<and> map_of P k = None then None else map_of st k)"
  by (induction ks arbitrary: r st) (auto simp: delete_conv')

lemma set_toRemove: "set (toRemove D O') = keys O' - keys D"
  by (auto simp: toRemove_def removedSecrets_def fst_removedLoop map_of_None_keys keys_def)

lemma map_of_state_after:
  "map_of (snd (removedSecrets D O')) k = (if k \<in> keys D then map_of O' k else None)"
  by (simp add: removedSecrets_def map_of_snd_removedLoop map_of_None_keys)
     (simp add: keys_def)

lemma keys_state_after: "keys (snd (removedSecrets D O')) = keys O' \<inter> keys D"
  by (auto simp: keys_dom map_of_state_after split: if_splits)

lemma keys_newSecretsLoop:
  "keys (newSecretsLoop P st acc) =
     keys acc \<union> {k. \<exists>ps. (k, ps) \<in> set P \<and>
                      (case map_of st k of None \<Rightarrow> True | Some s \<Rightarrow> \<not> Equal (Value s) (Value ps))}"
  by (induction P st acc rule: newSecretsLoop.induct)
     (auto simp: keys_update split: option.splits)

lemma keys_newSecretsOf:
  "keys (newSecretsOf D O') =
     {k. \<exists>ps. (k, ps) \<in> set D \<and>
           (case map_of O' k of None \<Rightarrow> True | Some s \<Rightarrow> \<not> Equal (Value s) (Value ps))}"
  by (auto simp: newSecretsOf_def keys_newSecretsLoop keys_def[of "[]"] map_of_state_after in_keys_iff
      split: option.splits if_splits)

lemma set_toAdd: "set (toAdd D O') = keys D - keys O'"
proof -
  have "set (toAdd D O') =
          {k \<in> keys (newSecretsOf D O'). map_of (snd (removedSecrets D O')) k = None}"
    by (auto simp: toAdd_def keys_def)
  also have "\<dots> = keys D - keys O'"
    by (auto simp: keys_newSecretsOf map_of_state_after keys_dom [of O'] in_keys_iff [of _ D]
        split: option.splits if_splits)
  finally show ?thesis .
qed

lemma set_toChange: "set (toChange D O') \<subseteq> keys D \<inter> keys O'"
proof -
  have "set (toChange D O') =
          {k \<in> keys (newSecretsOf D O'). map_of (snd (removedSecrets D O')) k \<noteq> None}"
    by (auto simp: toChange_def keys_def)
  also have "\<dots> \<subseteq> keys D \<inter> keys O'"
    by (auto simp: keys_newSecretsOf map_of_state_after keys_dom [of O'] in_keys_iff [of _ D]
        split: option.splits if_splits)
  finally show ?thesis .
qed

text \<open>
  Claim C2. For every desired map \<open>D\<close> and observed map \<open>O'\<close>, the key sets that Update
  computes satisfy: the added and the removed keys are disjoint; the added keys are
  the keys of \<open>D\<close> that \<open>O'\<close> lacks and the changed keys are keys of \<open>D\<close>; the removed keys
  are the keys of \<open>O'\<close> that \<open>D\<close> lacks; and the added keys, the common keys and the
  removed keys together are exactly the keys of \<open>D\<close> and \<open>O'\<close>.
\<close>

theorem differ_partition:
  "set (toAdd D O') \<inter> set (toRemove D O') = {} \<and>
   set (toAdd D O') = keys D - keys O' \<and>
   set (toChange D O') \<subseteq> keys D \<and>
   set (toRemove D O') = keys O' - keys D \<and>
   set (toAdd D O') \<union> (keys D \<inter> keys O') \<union> set (toRemove D O') = keys D \<union> keys O'"
  using set_toChange [of D O'] by (auto simp: set_toAdd set_toRemove)

theorem differ_partition_witness:
  "set (toAdd [(''A'', secretOf ''1'' StringUnknown StringUnknown)]
          [(''B'', secretOf ''2'' (StringValue ''d'') (StringValue ''t''))]) = {''A''} \<and>
   set (toRemove [(''A'', secretOf ''1'' StringUnknown StringUnknown)]
          [(''B'', secretOf ''2'' (StringValue ''d'') (StringValue ''t''))]) = {''B''}"
  using differ_partition [of "[(''A'', secretOf ''1'' StringUnknown StringUnknown)]"
      "[(''B'', secretOf ''2'' (StringValue ''d'') (StringValue ''t''))]"]
  by (simp add: keys_def)

section \<open>Update: properties\<close>

lemma newSecretsLoop_Nil:
  "\<forall>(k, ps) \<in> set P. \<exists>s. map_of st k = Some s \<and> Equal (Value s) (Value ps) \<Longrightarrow>
   newSecretsLoop P st acc = acc"
  by (induction P st acc rule: newSecretsLoop.induct) auto

lemma removedLoop_Nil:
  "set ks \<subseteq> keys P \<Longrightarrow> removedLoop ks P acc = acc"
  by (induction ks P acc rule: removedLoop.induct) (auto simp: map_of_None_keys)

text \<open>
  Claim C5. When the desired secrets have exactly the keys of the observed secrets and
  each desired value is \<^verbatim>\<open>Equal\<close> to the value recorded in the observed state, Update
  issues no call at all to the remote client: no SetSecrets and no UnsetSecrets.
\<close>

theorem update_idempotent:
  assumes "distinct (map fst (Secrets plan))"
    and "keys (Secrets plan) = keys (Secrets state)"
    and "\<forall>k ps s. map_of (Secrets plan) k = Some ps \<and> map_of (Secrets state) k = Some s \<longrightarrow>
           Equal (Value s) (Value ps)"
  shows "Calls (Update c planDiags plan stateDiags state) = []"
proof -
  have r: "removedSecrets (Secrets plan) (Secrets state) = ([], Secrets state)"
    using assms(2) by (simp add: removedSecrets_def removedLoop_Nil keys_def)
  have "\<forall>(k, ps) \<in> set (Secrets plan).
          \<exists>s. map_of (Secrets state) k = Some s \<and> Equal (Value s) (Value ps)"
  proof clarify
    fix k ps assume kp: "(k, ps) \<in> set (Secrets plan)"
    then have "k \<in> keys (Secrets state)" using assms(2) by (auto simp: in_keys_iff)
    then obtain s where s: "map_of (Secrets state) k = Some s"
      by (auto simp: keys_dom)
    from kp assms(1) have "map_of (Secrets plan) k = Some ps" by simp
    with s assms(3) show "\<exists>s. map_of (Secrets state) k = Some s \<and> Equal (Value s) (Value ps)"
      by blast
  qed
  then have n: "newSecretsLoop (Secrets plan) (Secrets state) [] = []"
    by (rule newSecretsLoop_Nil)
  show ?thesis
    by (simp add: Update_def UpdateSetSecrets_def r n Let_def)
qed

theorem update_idempotent_witness:
  "Calls (Update (constClient None (None, []) (None, [])) []
            (appData ''app'' [(''A'', secretOf ''1'' StringUnknown StringUnknown)]) []
            (appData ''app'' [(''A'', secretOf ''1'' (StringValue ''d1'') (StringValue ''t1''))])) = []"
proof -
  let ?plan = "appData ''app'' [(''A'', secretOf ''1'' StringUnknown StringUnknown)]"
  let ?state = "appData ''app'' [(''A'', secretOf ''1'' (StringValue ''d1'') (StringValue ''t1''))]"
  have h1: "distinct (map fst (Secrets ?plan))"
    by (simp add: appData_def)
  have h2: "keys (Secrets ?plan) = keys (Secrets ?state)"
    by (simp add: appData_def keys_def)
  have h3: "\<forall>k ps s. map_of (Secrets ?plan) k = Some ps \<and> map_of (Secrets ?state) k = Some s \<longrightarrow>
              Equal (Value s) (Value ps)"
    by (auto simp: appData_def secretOf_def split: if_splits)
  show ?thesis
    by (rule update_idempotent [OF h1 h2 h3])
qed


lemma Calls_setSecrets:
  "fst (setSecrets c n m d) = [CallSetSecrets \<lparr>AppId = n, InputSecrets = secretInputs m, ReplaceAll = False\<rparr>] \<or>
   fst (setSecrets c n m d) = [CallSetSecrets \<lparr>AppId = n, InputSecrets = secretInputs m, ReplaceAll = False\<rparr>, CallGetSecrets n]"
  by (simp add: setSecrets_def getSecretComputedValues_def Let_def split: prod.splits option.splits)

lemma mutations_setSecrets:
  "filter isMutation (fst (setSecrets c n m d)) =
     [CallSetSecrets \<lparr>AppId = n, InputSecrets = secretInputs m, ReplaceAll = False\<rparr>]"
  using Calls_setSecrets [of c n m d] by auto

lemma Calls_UpdateSetSecrets:
  "filter isMutation (Calls (UpdateSetSecrets c plan state diags written calls)) =
     filter isMutation calls @
     (if newSecretsLoop (Secrets plan) (Secrets state) [] = [] then []
      else [CallSetSecrets \<lparr>AppId = ValueString (AppName state),
              InputSecrets = secretInputs (newSecretsLoop (Secrets plan) (Secrets state) []),
              ReplaceAll = False\<rparr>])"
  using mutations_setSecrets [of c "ValueString (AppName state)" "newSecretsLoop (Secrets plan) (Secrets state) []" diags]
  by (auto simp: UpdateSetSecrets_def Let_def split: prod.splits)

text \<open>
  Claim C8. The mutation calls of an Update, in the order issued, are one of: none;
  the unset batch alone; the set batch alone; the unset batch followed by the set
  batch. The unset batch is one call carrying all removed keys, the set batch one
  call carrying all added and changed secrets. So whenever both kinds are issued, the
  unset batch comes first, and neither direction is ever sent key by key.
\<close>

theorem update_removal_before_addition:
  "filter isMutation (Calls (Update c planDiags plan stateDiags state)) \<in>
     {[],
      [CallUnsetSecrets (ValueString (AppName state)) (toRemove (Secrets plan) (Secrets state))],
      [CallSetSecrets \<lparr>AppId = ValueString (AppName state),
         InputSecrets = secretInputs (newSecretsOf (Secrets plan) (Secrets state)),
         ReplaceAll = False\<rparr>],
      [CallUnsetSecrets (ValueString (AppName state)) (toRemove (Secrets plan) (Secrets state)),
       CallSetSecrets \<lparr>AppId = ValueString (AppName state),
         InputSecrets = secretInputs (newSecretsOf (Secrets plan) (Secrets state)),
         ReplaceAll = False\<rparr>]}"
  by (simp add: Update_def Let_def Calls_UpdateSetSecrets toRemove_def newSecretsOf_def
      split: option.splits)

theorem update_removal_before_addition_witness:
  "filter isMutation
     (Calls (Update (constClient None (None, [apiSecretOf ''B'' ''d2'' ''t2'']) (None, [])) []
        (appData ''app'' [(''B'', secretOf ''2'' StringUnknown StringUnknown)]) []
        (appData ''app'' [(''A'', secretOf ''1'' (StringValue ''d1'') (StringValue ''t1''))]))) =
   [CallUnsetSecrets ''app'' [''A''],
    CallSetSecrets \<lparr>AppId = ''app'', InputSecrets = [\<lparr>Key = ''B'', InputValue = ''2''\<rparr>],
      ReplaceAll = False\<rparr>]"
  using update_removal_before_addition
    [of "constClient None (None, [apiSecretOf ''B'' ''d2'' ''t2'']) (None, [])" "[]"
        "appData ''app'' [(''B'', secretOf ''2'' StringUnknown StringUnknown)]" "[]"
        "appData ''app'' [(''A'', secretOf ''1'' (StringValue ''d1'') (StringValue ''t1''))]"]
  by (simp add: Update_def UpdateSetSecrets_def setSecrets_def removedSecrets_def constClient_def
      appData_def secretOf_def secretInputs_def immutableChecks_def HasError_def Append_def Let_def
      toRemove_def newSecretsOf_def)

lemma map_fst_update_present:
  "map_of m k = Some v \<Longrightarrow> map fst (AList.update k v' m) = map fst m"
  by (auto simp: update_keys dest!: map_of_SomeD intro: rev_image_eqI)

lemma map_fst_setSecretsLoop: "map fst (setSecretsLoop rs m) = map fst m"
  by (induction rs m rule: setSecretsLoop.induct)
     (simp_all add: map_fst_update_present split: option.splits)

lemma map_fst_computedValuesLoop: "map fst (computedValuesLoop rs m) = map fst m"
  by (induction rs m rule: computedValuesLoop.induct)
     (simp_all add: map_fst_update_present split: option.splits)

lemma map_fst_setSecrets: "map fst (fst (snd (setSecrets c n m d))) = map fst m"
  by (simp add: setSecrets_def getSecretComputedValues_def Let_def map_fst_setSecretsLoop
      map_fst_computedValuesLoop split: prod.splits option.splits)

lemma keys_setSecrets: "keys (fst (snd (setSecrets c n m d))) = keys m"
  by (simp add: keys_def map_fst_setSecrets)

lemma keys_fold_setSecret:
  "keys (Secrets (fold (\<lambda>(k, s). setSecret k s) ns st)) = keys ns \<union> keys (Secrets st)"
  by (induction ns arbitrary: st) (auto simp: setSecret_def keys_update, auto simp: keys_def)

lemma Key_secretInputs: "Key ` set (secretInputs m) = keys m"
  by (force simp: secretInputs_def keys_def image_iff split: prod.splits)

lemma keys_newSecretsOf_subset: "keys (newSecretsOf D O') \<subseteq> keys D"
  by (auto simp: keys_newSecretsOf in_keys_iff)

lemma set_Calls_setSecrets:
  "set (fst (setSecrets c n m d)) \<subseteq>
     {CallSetSecrets \<lparr>AppId = n, InputSecrets = secretInputs m, ReplaceAll = False\<rparr>, CallGetSecrets n}"
  using Calls_setSecrets [of c n m d] by auto

lemma set_Calls_UpdateSetSecrets:
  "set (Calls (UpdateSetSecrets c plan state diags written calls)) \<subseteq>
     set calls \<union>
     {CallSetSecrets \<lparr>AppId = ValueString (AppName state),
        InputSecrets = secretInputs (newSecretsLoop (Secrets plan) (Secrets state) []),
        ReplaceAll = False\<rparr>, CallGetSecrets (ValueString (AppName state))}"
  using set_Calls_setSecrets [of c "ValueString (AppName state)"
      "newSecretsLoop (Secrets plan) (Secrets state) []" diags]
  by (auto simp: UpdateSetSecrets_def Let_def split: prod.splits)

lemma set_Calls_Update:
  "set (Calls (Update c planDiags plan stateDiags state)) \<subseteq>
     {CallUnsetSecrets (ValueString (AppName state)) (toRemove (Secrets plan) (Secrets state)),
      CallSetSecrets \<lparr>AppId = ValueString (AppName state),
        InputSecrets = secretInputs (newSecretsOf (Secrets plan) (Secrets state)),
        ReplaceAll = False\<rparr>,
      CallGetSecrets (ValueString (AppName state))}"
proof -
  let ?st1 = "state\<lparr>Secrets := snd (removedSecrets (Secrets plan) (Secrets state))\<rparr>"
  have s: "\<And>diags written calls x.
     x \<in> set (Calls (UpdateSetSecrets c plan ?st1 diags written calls)) \<Longrightarrow>
       x \<in> set calls \<or>
       x = CallSetSecrets \<lparr>AppId = ValueString (AppName state),
         InputSecrets = secretInputs (newSecretsOf (Secrets plan) (Secrets state)),
         ReplaceAll = False\<rparr> \<or> x = CallGetSecrets (ValueString (AppName state))"
    using set_Calls_UpdateSetSecrets [of c plan ?st1] by (auto simp: newSecretsOf_def)
  show ?thesis
    unfolding Update_def Let_def toRemove_def [symmetric]
    by (auto split: option.splits dest!: s)
qed

lemma keys_NewState_UpdateSetSecrets:
  assumes "NewState (UpdateSetSecrets c plan state diags written calls) = Written st"
    and "keys (Secrets state) \<subseteq> keys (Secrets plan)"
    and "\<And>st'. written = Written st' \<Longrightarrow> keys (Secrets st') \<subseteq> keys (Secrets plan)"
  shows "keys (Secrets st) \<subseteq> keys (Secrets plan)"
proof -
  let ?ns = "newSecretsLoop (Secrets plan) (Secrets state) []"
  have k: "keys ?ns \<subseteq> keys (Secrets plan)"
    by (auto simp: keys_newSecretsLoop in_keys_iff keys_def [of "[]"])
  show ?thesis
  proof (cases "?ns = []")
    case True
    with assms show ?thesis by (simp add: UpdateSetSecrets_def)
  next
    case False
    obtain calls1 ns1 diags1 where
      r: "setSecrets c (ValueString (AppName state)) ?ns diags = (calls1, ns1, diags1)"
      by (cases "setSecrets c (ValueString (AppName state)) ?ns diags") auto
    have k1: "keys ns1 = keys ?ns"
      using keys_setSecrets [of c "ValueString (AppName state)" ?ns diags] by (simp add: r)
    show ?thesis
    proof (cases "HasError diags1")
      case True
      with False r assms(1) have "written = Written st"
        by (simp add: UpdateSetSecrets_def Let_def)
      then show ?thesis by (rule assms(3))
    next
      case h: False
      with False r assms(1) have "st = fold (\<lambda>(k, s). setSecret k s) ns1 state"
        by (simp add: UpdateSetSecrets_def Let_def)
      then show ?thesis using k k1 assms(2) by (simp add: keys_fold_setSecret)
    qed
  qed
qed

lemma keys_NewState_Update:
  assumes "NewState (Update c planDiags plan stateDiags state) = Written st"
  shows "keys (Secrets st) \<subseteq> keys (Secrets plan)"
proof -
  let ?st1 = "state\<lparr>Secrets := snd (removedSecrets (Secrets plan) (Secrets state))\<rparr>"
  have k: "keys (Secrets ?st1) \<subseteq> keys (Secrets plan)"
    by (simp add: keys_state_after)
  have s: "\<And>diags written calls st.
     NewState (UpdateSetSecrets c plan ?st1 diags written calls) = Written st \<Longrightarrow>
     (written = Untouched \<or> written = Written ?st1) \<Longrightarrow> keys (Secrets st) \<subseteq> keys (Secrets plan)"
    using keys_NewState_UpdateSetSecrets [OF _ k] k by (metis stateWrite.inject stateWrite.distinct(3))
  show ?thesis
    using assms k unfolding Update_def Let_def
    by (auto split: option.splits if_splits dest!: s)
qed

text \<open>
  Claim C1, as amended. For every plan (desired secrets \<open>D\<close>), prior state (observed
  secrets \<open>O\<close>) and client: an unset batch issued by Update carries exactly the keys of
  \<open>O\<close> that \<open>D\<close> lacks, so a key that is in neither \<open>D\<close> nor \<open>O\<close> is never unset; a set
  batch carries keys of \<open>D\<close> only; the state that Update writes has keys of \<open>D\<close> only;
  \<^verbatim>\<open>setSecrets\<close>, whatever the response, returns a map with the keys of the
  requested map, so no digest or time stamp is written for any other key; and
  refreshing the observed secrets against a snapshot adds no key to them.
\<close>

theorem update_batches_managed_keys:
  "(CallUnsetSecrets n ks \<in> set (Calls (Update c planDiags plan stateDiags state)) \<longrightarrow>
      set ks = keys (Secrets state) - keys (Secrets plan)) \<and>
   (CallSetSecrets req \<in> set (Calls (Update c planDiags plan stateDiags state)) \<longrightarrow>
      Key ` set (InputSecrets req) \<subseteq> keys (Secrets plan)) \<and>
   (NewState (Update c planDiags plan stateDiags state) = Written st \<longrightarrow>
      keys (Secrets st) \<subseteq> keys (Secrets plan)) \<and>
   keys (fst (snd (setSecrets c' n' m d))) = keys m \<and>
   keys (updateSecretsFromApi a m') \<subseteq> keys m'"
proof -
  have u: "CallUnsetSecrets n ks \<in> set (Calls (Update c planDiags plan stateDiags state)) \<Longrightarrow>
           set ks = keys (Secrets state) - keys (Secrets plan)"
    using set_Calls_Update [of c planDiags plan stateDiags state] by (auto simp: set_toRemove)
  have a: "Key ` set (InputSecrets req) \<subseteq> keys (Secrets plan)"
    if "CallSetSecrets req \<in> set (Calls (Update c planDiags plan stateDiags state))"
  proof -
    from that set_Calls_Update [of c planDiags plan stateDiags state]
    have "req = \<lparr>AppId = ValueString (AppName state),
                 InputSecrets = secretInputs (newSecretsOf (Secrets plan) (Secrets state)),
                 ReplaceAll = False\<rparr>"
      by auto
    then have "Key ` set (InputSecrets req) = keys (newSecretsOf (Secrets plan) (Secrets state))"
      by (simp add: Key_secretInputs)
    then show ?thesis
      using keys_newSecretsOf_subset [of "Secrets plan" "Secrets state"] by simp
  qed
  show ?thesis
    using u a keys_NewState_Update [of c planDiags plan stateDiags state st]
      keys_updateSecretsFromApi [of a m', folded keys_def]
    by (simp add: keys_setSecrets)
qed

theorem update_batches_managed_keys_witness:
  "Calls (Update (constClient None (None, [apiSecretOf ''B'' ''d2'' ''t2'', apiSecretOf ''X'' ''d3'' ''t3''])
                   (None, [])) []
            (appData ''app'' [(''B'', secretOf ''2'' StringUnknown StringUnknown)]) []
            (appData ''app'' [(''A'', secretOf ''1'' (StringValue ''d1'') (StringValue ''t1''))])) =
     [CallUnsetSecrets ''app'' [''A''],
      CallSetSecrets \<lparr>AppId = ''app'', InputSecrets = [\<lparr>Key = ''B'', InputValue = ''2''\<rparr>],
        ReplaceAll = False\<rparr>] \<and>
   NewState (Update (constClient None (None, [apiSecretOf ''B'' ''d2'' ''t2'', apiSecretOf ''X'' ''d3'' ''t3''])
                   (None, [])) []
            (appData ''app'' [(''B'', secretOf ''2'' StringUnknown StringUnknown)]) []
            (appData ''app'' [(''A'', secretOf ''1'' (StringValue ''d1'') (StringValue ''t1''))])) =
     Written (appData ''app'' [(''B'', secretOf ''2'' (StringValue ''d2'') (StringValue ''t2''))]) \<and>
   set [''A''] = keys [(''A'', secretOf ''1'' (StringValue ''d1'') (StringValue ''t1''))] -
                 keys [(''B'', secretOf ''2'' StringUnknown StringUnknown)] \<and>
   Key ` set [\<lparr>Key = ''B'', InputValue = ''2''\<rparr>] \<subseteq> keys [(''B'', secretOf ''2'' StringUnknown StringUnknown)]"
proof -
  let ?c = "constClient None (None, [apiSecretOf ''B'' ''d2'' ''t2'', apiSecretOf ''X'' ''d3'' ''t3'']) (None, [])"
  let ?plan = "appData ''app'' [(''B'', secretOf ''2'' StringUnknown StringUnknown)]"
  let ?state = "appData ''app'' [(''A'', secretOf ''1'' (StringValue ''d1'') (StringValue ''t1''))]"
  let ?req = "\<lparr>AppId = ''app'', InputSecrets = [\<lparr>Key = ''B'', InputValue = ''2''\<rparr>], ReplaceAll = False\<rparr>"
  have e: "Update ?c [] ?plan [] ?state =
             \<lparr>Diagnostics = [],
              NewState = Written (appData ''app'' [(''B'', secretOf ''2'' (StringValue ''d2'') (StringValue ''t2''))]),
              Calls = [CallUnsetSecrets ''app'' [''A''], CallSetSecrets ?req]\<rparr>"
    by (simp add: Update_def UpdateSetSecrets_def setSecrets_def removedSecrets_def constClient_def
        appData_def secretOf_def secretInputs_def immutableChecks_def HasError_def Append_def Let_def
        apiSecretOf_def setSecret_def)
  have s: "Secrets ?plan = [(''B'', secretOf ''2'' StringUnknown StringUnknown)]"
          "Secrets ?state = [(''A'', secretOf ''1'' (StringValue ''d1'') (StringValue ''t1''))]"
    by (simp_all add: appData_def)
  show ?thesis
    using update_batches_managed_keys [of "''app''" "[''A'']" ?c "[]" ?plan "[]" ?state ?req]
    unfolding e s by simp
qed

text \<open>
  Claim C1 as stated fails: the key \<^verbatim>\<open>A\<close> is present in the remote store and absent
  from the desired secrets, and Update puts it into the unset batch, because the
  observed state still has it.
\<close>

theorem unmanaged_passthrough_counterexample:
  "''A'' \<in> Name ` set (snd (GetSecrets (constClient None (None, []) (None, [apiSecretOf ''A'' ''d1'' ''t1''])) ''app'')) \<and>
   ''A'' \<notin> keys (Secrets (appData ''app'' [])) \<and>
   CallUnsetSecrets ''app'' [''A''] \<in>
     set (Calls (Update (constClient None (None, []) (None, [apiSecretOf ''A'' ''d1'' ''t1''])) []
            (appData ''app'' []) []
            (appData ''app'' [(''A'', secretOf ''1'' (StringValue ''d1'') (StringValue ''t1''))])))"
  by (simp add: Update_def UpdateSetSecrets_def removedSecrets_def constClient_def
      appData_def secretOf_def immutableChecks_def HasError_def Append_def Let_def apiSecretOf_def keys_def)

text \<open>
  Claim C7. The plan changes the name of the app from \<^verbatim>\<open>a\<close> to \<^verbatim>\<open>b\<close> and adds the
  secret \<^verbatim>\<open>A\<close>. Update records the error on the immutable name and, having no
  \<^verbatim>\<open>return\<close> after it, goes on to issue the set batch.
\<close>

theorem update_immutable_name_still_sets:
  "HasError (Diagnostics (Update (constClient None (None, [apiSecretOf ''A'' ''d1'' ''t1'']) (None, [])) []
      (appData ''b'' [(''A'', secretOf ''1'' StringUnknown StringUnknown)]) []
      (appData ''a'' []))) \<and>
   Calls (Update (constClient None (None, [apiSecretOf ''A'' ''d1'' ''t1'']) (None, [])) []
      (appData ''b'' [(''A'', secretOf ''1'' StringUnknown StringUnknown)]) []
      (appData ''a'' [])) =
     [CallSetSecrets \<lparr>AppId = ''a'', InputSecrets = [\<lparr>Key = ''A'', InputValue = ''1''\<rparr>],
        ReplaceAll = False\<rparr>]"
  by (simp add: Update_def UpdateSetSecrets_def setSecrets_def removedSecrets_def constClient_def
      appData_def secretOf_def secretInputs_def immutableChecks_def HasError_def Append_def AddError_def Let_def
      apiSecretOf_def setSecret_def)

section \<open>Secret reconciler: properties\<close>

lemma find_snoc:
  "find P (xs @ [a]) = (case find P xs of None \<Rightarrow> (if P a then Some a else None) | Some x \<Rightarrow> Some x)"
  by (induction xs) simp_all

lemma map_of_setSecretsLoop:
  "map_of (setSecretsLoop rs m) k =
     (case map_of m k of
        None \<Rightarrow> None
      | Some s \<Rightarrow>
          (case find (\<lambda>a. Name a = k) (rev rs) of
             None \<Rightarrow> Some s
           | Some a \<Rightarrow> Some \<lparr>Value = Value s, Digest = StringValue (ApiDigest a),
                           CreatedAt = StringValue (ApiCreatedAt a)\<rparr>))"
  by (induction rs m rule: setSecretsLoop.induct)
     (auto simp: find_snoc update_conv' split: option.splits)

lemma map_of_computedValuesLoop:
  "map_of (computedValuesLoop rs m) k =
     (case map_of m k of
        None \<Rightarrow> None
      | Some s \<Rightarrow>
          (case find (\<lambda>a. Name a = k) (rev rs) of
             None \<Rightarrow> Some s
           | Some a \<Rightarrow> Some \<lparr>Value = Value s, Digest = StringValue (ApiDigest a),
                           CreatedAt = StringValue (ApiCreatedAt a)\<rparr>))"
  by (induction rs m rule: computedValuesLoop.induct)
     (auto simp: find_snoc update_conv' split: option.splits)

lemma find_unique:
  "distinct (map f xs) \<Longrightarrow> (find (\<lambda>a. f a = k) xs = Some x) = (x \<in> set xs \<and> f x = k)"
  by (induction xs) (auto simp: image_iff)

lemma find_same_entries:
  assumes "distinct (map Name rs)" and "distinct (map Name rs')"
    and "{a \<in> set rs'. Name a \<in> K} = {a \<in> set rs. Name a \<in> K}" and "k \<in> K"
  shows "find (\<lambda>a. Name a = k) (rev rs') = find (\<lambda>a. Name a = k) (rev rs)"
proof -
  have d: "distinct (map Name (rev rs))" "distinct (map Name (rev rs'))"
    using assms(1,2) by (simp_all add: rev_map [symmetric])
  have "\<And>x. (find (\<lambda>a. Name a = k) (rev rs') = Some x) = (find (\<lambda>a. Name a = k) (rev rs) = Some x)"
    using assms(3,4) by (auto simp: find_unique [OF d(1)] find_unique [OF d(2)])
  then show ?thesis
    by (metis option.exhaust)
qed

lemma setSecretsLoop_same_entries:
  assumes "distinct (map Name rs)" and "distinct (map Name rs')"
    and "{a \<in> set rs'. Name a \<in> keys m} = {a \<in> set rs. Name a \<in> keys m}"
  shows "map_of (setSecretsLoop rs' m) = map_of (setSecretsLoop rs m)"
proof
  fix k
  show "map_of (setSecretsLoop rs' m) k = map_of (setSecretsLoop rs m) k"
  proof (cases "map_of m k")
    case None
    then show ?thesis by (simp add: map_of_setSecretsLoop)
  next
    case (Some s)
    then have "k \<in> keys m" by (auto simp: keys_dom)
    from find_same_entries [OF assms this] Some show ?thesis
      by (simp add: map_of_setSecretsLoop)
  qed
qed

lemma setSecrets_success:
  "SetSecrets c \<lparr>AppId = n, InputSecrets = secretInputs m, ReplaceAll = False\<rparr> = (None, rs) \<Longrightarrow>
   setSecrets c n m d =
     ([CallSetSecrets \<lparr>AppId = n, InputSecrets = secretInputs m, ReplaceAll = False\<rparr>],
      setSecretsLoop rs m, d)"
  by (simp add: setSecrets_def)

text \<open>
  Claim C9. When the set batch succeeds with the response list \<open>rs\<close>, \<^verbatim>\<open>setSecrets\<close>
  keeps the keys of the requested map and the diagnostics, keeps the value of every
  requested secret, and gives a requested name digest and created-at of the response
  entry of that name (the last one, should the name repeat), leaving a requested name
  without such an entry as it was. Only the entries of requested names matter: a
  response with the same such entries, in any order and with any other entries,
  produces the same map.
\<close>

theorem setSecrets_response_frame:
  assumes "SetSecrets c \<lparr>AppId = n, InputSecrets = secretInputs m, ReplaceAll = False\<rparr> = (None, rs)"
  shows "map fst (fst (snd (setSecrets c n m d))) = map fst m \<and>
         snd (snd (setSecrets c n m d)) = d \<and>
         (\<forall>k. map_option Value (map_of (fst (snd (setSecrets c n m d))) k) =
               map_option Value (map_of m k)) \<and>
         (\<forall>k s. map_of m k = Some s \<longrightarrow>
            map_of (fst (snd (setSecrets c n m d))) k =
              (case find (\<lambda>a. Name a = k) (rev rs) of
                 None \<Rightarrow> Some s
               | Some a \<Rightarrow> Some \<lparr>Value = Value s, Digest = StringValue (ApiDigest a),
                               CreatedAt = StringValue (ApiCreatedAt a)\<rparr>)) \<and>
         (\<forall>rs'. distinct (map Name rs) \<and> distinct (map Name rs') \<and>
                {a \<in> set rs'. Name a \<in> keys m} = {a \<in> set rs. Name a \<in> keys m} \<longrightarrow>
                map_of (setSecretsLoop rs' m) = map_of (fst (snd (setSecrets c n m d))))"
  by (simp add: setSecrets_success [OF assms] map_fst_setSecretsLoop map_of_setSecretsLoop
      setSecretsLoop_same_entries split: option.splits)

theorem setSecrets_response_frame_witness:
  "fst (snd (setSecrets
      (constClient None (None, [apiSecretOf ''X'' ''d3'' ''t3'', apiSecretOf ''A'' ''d1'' ''t1'']) (None, []))
      ''app'' [(''A'', secretOf ''1'' StringUnknown StringUnknown),
               (''B'', secretOf ''2'' StringUnknown StringUnknown)] [])) =
     [(''A'', secretOf ''1'' (StringValue ''d1'') (StringValue ''t1'')),
      (''B'', secretOf ''2'' StringUnknown StringUnknown)]"
proof -
  let ?rs = "[apiSecretOf ''X'' ''d3'' ''t3'', apiSecretOf ''A'' ''d1'' ''t1'']"
  let ?c = "constClient None (None, ?rs) (None, [])"
  let ?m = "[(''A'', secretOf ''1'' StringUnknown StringUnknown),
             (''B'', secretOf ''2'' StringUnknown StringUnknown)]"
  have h: "SetSecrets ?c \<lparr>AppId = ''app'', InputSecrets = secretInputs ?m, ReplaceAll = False\<rparr> = (None, ?rs)"
    by (simp add: constClient_def)
  have e: "fst (snd (setSecrets ?c ''app'' ?m [])) =
             [(''A'', secretOf ''1'' (StringValue ''d1'') (StringValue ''t1'')),
              (''B'', secretOf ''2'' StringUnknown StringUnknown)]"
    by (simp add: setSecrets_def constClient_def apiSecretOf_def secretOf_def)
  show ?thesis
    using setSecrets_response_frame [OF h, of "[]"] unfolding e by simp
qed

lemma isNoChange_iff:
  "isNoChange err \<longleftrightarrow> (\<exists>e. err = GqlErrorList [e] \<and> Contains (Message e) ''No change detected'')"
  by (cases err) (auto simp: isNoChange_def length_Suc_conv)

lemma Contains_sublist: "Contains s sub \<longleftrightarrow> sublist sub s"
  by (induction s) (auto simp: sublist_Cons_right)

text \<open>
  Claim C4, as amended. Let the set batch fail with the error \<open>err\<close>. If \<open>err\<close> is a
  list of exactly one remote error whose message contains \<^verbatim>\<open>No change detected\<close>, then
  \<^verbatim>\<open>setSecrets\<close> issues the compensating GetSecrets after the set batch, emits the
  drift warning, records no error of its own (the diagnostics have an error exactly
  when they had one before or the compensating GetSecrets itself fails), keeps every
  value, and gives each requested name that occurs in the fetched list the digest and
  created-at of its (last) fetched entry. For any other \<open>err\<close> the error
  \<^verbatim>\<open>SetSecrets errored\<close> is recorded, no fetch is issued and the map is unchanged.
\<close>

theorem setSecrets_no_change:
  assumes "SetSecrets c \<lparr>AppId = n, InputSecrets = secretInputs m, ReplaceAll = False\<rparr> = (Some err, resp)"
  shows "((\<exists>e. err = GqlErrorList [e] \<and> Contains (Message e) ''No change detected'') \<longrightarrow>
            fst (setSecrets c n m d) =
              [CallSetSecrets \<lparr>AppId = n, InputSecrets = secretInputs m, ReplaceAll = False\<rparr>,
               CallGetSecrets n] \<and>
            \<lparr>Severity = SeverityWarning, Summary = ''State may have drifted'', Detail = Text driftText\<rparr>
              \<in> set (snd (snd (setSecrets c n m d))) \<and>
            (HasError (snd (snd (setSecrets c n m d))) \<longleftrightarrow>
               HasError d \<or> fst (GetSecrets c n) \<noteq> None) \<and>
            (\<forall>k. map_option Value (map_of (fst (snd (setSecrets c n m d))) k) =
                  map_option Value (map_of m k)) \<and>
            (\<forall>k s. map_of m k = Some s \<longrightarrow>
               map_of (fst (snd (setSecrets c n m d))) k =
                 (case find (\<lambda>a. Name a = k) (rev (snd (GetSecrets c n))) of
                    None \<Rightarrow> Some s
                  | Some a \<Rightarrow> Some \<lparr>Value = Value s, Digest = StringValue (ApiDigest a),
                                  CreatedAt = StringValue (ApiCreatedAt a)\<rparr>))) \<and>
         (\<not> (\<exists>e. err = GqlErrorList [e] \<and> Contains (Message e) ''No change detected'') \<longrightarrow>
            setSecrets c n m d =
              ([CallSetSecrets \<lparr>AppId = n, InputSecrets = secretInputs m, ReplaceAll = False\<rparr>], m,
               AddError ''SetSecrets errored'' (ErrorText err) d))"
proof (cases "isNoChange err")
  case True
  obtain gerr fetched where g: "GetSecrets c n = (gerr, fetched)"
    by (cases "GetSecrets c n") auto
  have r: "setSecrets c n m d =
      ([CallSetSecrets \<lparr>AppId = n, InputSecrets = secretInputs m, ReplaceAll = False\<rparr>, CallGetSecrets n],
       computedValuesLoop fetched m,
       (case gerr of Some e \<Rightarrow> AddError ''GetSecrets failed'' (ErrorText e)
                  (AddWarning ''State may have drifted'' (Text driftText)
                    (AddWarning ''SetSecrets was no-op'' (ErrorText err) d))
        | None \<Rightarrow> AddWarning ''State may have drifted'' (Text driftText)
                    (AddWarning ''SetSecrets was no-op'' (ErrorText err) d)))"
    using assms True g by (simp add: setSecrets_def getSecretComputedValues_def Let_def)
  from True have "\<exists>e. err = GqlErrorList [e] \<and> Contains (Message e) ''No change detected''"
    by (simp add: isNoChange_iff)
  then show ?thesis
    unfolding r
    by (cases gerr) (simp_all add: g map_of_computedValuesLoop HasError_AddError
        HasError_AddWarning set_AddWarning set_AddError split: option.splits)
next
  case False
  then have "\<not> (\<exists>e. err = GqlErrorList [e] \<and> Contains (Message e) ''No change detected'')"
    by (simp add: isNoChange_iff)
  then show ?thesis
    using assms False by (simp add: setSecrets_def)
qed


theorem setSecrets_no_change_witness:
  "setSecrets
     (constClient None
        (Some (GqlErrorList [\<lparr>Message = ''No change detected to secrets'', Path = [], Extensions = []\<rparr>]), [])
        (None, [apiSecretOf ''A'' ''d1'' ''t1'']))
     ''app'' [(''A'', secretOf ''1'' StringUnknown StringUnknown)] [] =
     ([CallSetSecrets \<lparr>AppId = ''app'', InputSecrets = [\<lparr>Key = ''A'', InputValue = ''1''\<rparr>],
         ReplaceAll = False\<rparr>, CallGetSecrets ''app''],
      [(''A'', secretOf ''1'' (StringValue ''d1'') (StringValue ''t1''))],
      [\<lparr>Severity = SeverityWarning, Summary = ''SetSecrets was no-op'',
         Detail = ErrorText (GqlErrorList
           [\<lparr>Message = ''No change detected to secrets'', Path = [], Extensions = []\<rparr>])\<rparr>,
       \<lparr>Severity = SeverityWarning, Summary = ''State may have drifted'', Detail = Text driftText\<rparr>]) \<and>
   setSecrets (constClient None (Some (OtherError ''timeout''), []) (None, [apiSecretOf ''A'' ''d1'' ''t1'']))
     ''app'' [(''A'', secretOf ''1'' StringUnknown StringUnknown)] [] =
     ([CallSetSecrets \<lparr>AppId = ''app'', InputSecrets = [\<lparr>Key = ''A'', InputValue = ''1''\<rparr>],
         ReplaceAll = False\<rparr>],
      [(''A'', secretOf ''1'' StringUnknown StringUnknown)],
      [\<lparr>Severity = SeverityError, Summary = ''SetSecrets errored'',
         Detail = ErrorText (OtherError ''timeout'')\<rparr>])"
proof -
  let ?e = "GqlErrorList [\<lparr>Message = ''No change detected to secrets'', Path = [], Extensions = []\<rparr>]"
  let ?c1 = "constClient None (Some ?e, []) (None, [apiSecretOf ''A'' ''d1'' ''t1''])"
  let ?c2 = "constClient None (Some (OtherError ''timeout''), []) (None, [apiSecretOf ''A'' ''d1'' ''t1''])"
  let ?m = "[(''A'', secretOf ''1'' StringUnknown StringUnknown)]"
  have h1: "SetSecrets ?c1 \<lparr>AppId = ''app'', InputSecrets = secretInputs ?m, ReplaceAll = False\<rparr> = (Some ?e, [])"
    by (simp add: constClient_def)
  have h2: "SetSecrets ?c2 \<lparr>AppId = ''app'', InputSecrets = secretInputs ?m, ReplaceAll = False\<rparr> =
              (Some (OtherError ''timeout''), [])"
    by (simp add: constClient_def)
  have e1: "setSecrets ?c1 ''app'' ?m [] =
     ([CallSetSecrets \<lparr>AppId = ''app'', InputSecrets = [\<lparr>Key = ''A'', InputValue = ''1''\<rparr>],
         ReplaceAll = False\<rparr>, CallGetSecrets ''app''],
      [(''A'', secretOf ''1'' (StringValue ''d1'') (StringValue ''t1''))],
      [\<lparr>Severity = SeverityWarning, Summary = ''SetSecrets was no-op'', Detail = ErrorText ?e\<rparr>,
       \<lparr>Severity = SeverityWarning, Summary = ''State may have drifted'', Detail = Text driftText\<rparr>])"
    by (simp add: setSecrets_def getSecretComputedValues_def isNoChange_def constClient_def
        apiSecretOf_def secretOf_def secretInputs_def AddWarning_def Append_def Let_def)
  have e2: "setSecrets ?c2 ''app'' ?m [] =
     ([CallSetSecrets \<lparr>AppId = ''app'', InputSecrets = [\<lparr>Key = ''A'', InputValue = ''1''\<rparr>],
         ReplaceAll = False\<rparr>],
      ?m,
      [\<lparr>Severity = SeverityError, Summary = ''SetSecrets errored'',
         Detail = ErrorText (OtherError ''timeout'')\<rparr>])"
    by (simp add: setSecrets_def isNoChange_def constClient_def secretOf_def secretInputs_def
        AddError_def Append_def Let_def)
  show ?thesis
    using setSecrets_no_change [OF h1, of "[]"] setSecrets_no_change [OF h2, of "[]"]
    unfolding e1 e2 by simp
qed

text \<open>
  Claim C4 as stated fails: the set batch reports no change, the compensating
  GetSecrets fails, and \<^verbatim>\<open>setSecrets\<close> records the error \<^verbatim>\<open>GetSecrets failed\<close>.
\<close>

theorem setSecrets_no_change_counterexample:
  "isNoChange (GqlErrorList [\<lparr>Message = ''No change detected to secrets'', Path = [], Extensions = []\<rparr>]) \<and>
   HasError (snd (snd (setSecrets
     (constClient None
        (Some (GqlErrorList [\<lparr>Message = ''No change detected to secrets'', Path = [], Extensions = []\<rparr>]), [])
        (Some (OtherError ''timeout''), []))
     ''app'' [(''A'', secretOf ''1'' StringUnknown StringUnknown)] [])))"
  by (simp add: setSecrets_def getSecretComputedValues_def isNoChange_def constClient_def
      secretOf_def secretInputs_def AddWarning_def AddError_def HasError_def Append_def Let_def)

section \<open>Conditional freeze modifier: properties\<close>

text \<open>
  Claim C6. The attribute \<^verbatim>\<open>digest\<close> of the secret \<^verbatim>\<open>A\<close> has the prior state
  \<^verbatim>\<open>abc\<close>, an unknown planned value and a null config. The correlated input
  \<^verbatim>\<open>value\<close> is unknown in the config, and unknown in the prior state as well, which
  is how the drift detector leaves it. The claim says that with an undetermined
  correlated input the planned value stays unknown. The modifier tests its own config
  value for unknown but not the correlated one, finds the two unknown values
  \<^verbatim>\<open>Equal\<close>, and pins the planned digest to \<^verbatim>\<open>abc\<close>.
\<close>

theorem freeze_pins_unknown_correlated_input:
  "IsUnknown (snd (ReqConfig
     \<lparr>ReqPath = [''secrets'', ''A'', ''digest''], StateValue = StringValue ''abc'',
      ConfigValue = StringNull, ReqState = (\<lambda>_. ([], StringUnknown)),
      ReqConfig = (\<lambda>_. ([], StringUnknown))\<rparr> [''secrets'', ''A'', ''value''])) \<and>
   PlanValue (PlanModifyString secretValueUnchanged
     \<lparr>ReqPath = [''secrets'', ''A'', ''digest''], StateValue = StringValue ''abc'',
      ConfigValue = StringNull, ReqState = (\<lambda>_. ([], StringUnknown)),
      ReqConfig = (\<lambda>_. ([], StringUnknown))\<rparr>
     \<lparr>PlanValue = StringUnknown, RespDiagnostics = []\<rparr>) = StringValue ''abc''"
  by (simp add: PlanModifyString_def secretValueUnchanged_def HasError_def Append_def Let_def)

text \<open>
  How that input arises and what follows from the pinned plan. Refreshing a secret
  whose remote digest changed to \<^verbatim>\<open>abc\<close> leaves its value unknown in the state. Once
  the value is known to be \<^verbatim>\<open>2\<close>, Update finds it different from the unknown state
  value, sends the set batch, and writes the digest \<^verbatim>\<open>d2\<close> of the response, not the
  planned \<^verbatim>\<open>abc\<close>.
\<close>

lemma drift_leaves_value_unknown:
  "map_of (updateSecretsFromApi [apiSecretOf ''A'' ''abc'' ''t1'']
             [(''A'', secretOf ''1'' (StringValue ''d0'') (StringValue ''t1''))]) ''A'' =
     Some \<lparr>Value = StringUnknown, Digest = StringValue ''abc'', CreatedAt = StringValue ''t1''\<rparr>"
  by (simp add: updateSecretsFromApi_def updateSecretFromApi_def lookupSecret_def apiSecretOf_def
      secretOf_def)

lemma update_after_pinned_plan:
  "Update (constClient None (None, [apiSecretOf ''A'' ''d2'' ''t2'']) (None, [])) []
     (appData ''app'' [(''A'', secretOf ''2'' (StringValue ''abc'') (StringValue ''t1''))]) []
     (appData ''app''
        [(''A'', \<lparr>Value = StringUnknown, Digest = StringValue ''abc'', CreatedAt = StringValue ''t1''\<rparr>)]) =
   \<lparr>Diagnostics = [],
    NewState = Written (appData ''app'' [(''A'', secretOf ''2'' (StringValue ''d2'') (StringValue ''t2''))]),
    Calls = [CallSetSecrets \<lparr>AppId = ''app'', InputSecrets = [\<lparr>Key = ''A'', InputValue = ''2''\<rparr>],
               ReplaceAll = False\<rparr>]\<rparr>"
  by (simp add: Update_def UpdateSetSecrets_def setSecrets_def removedSecrets_def constClient_def
      appData_def secretOf_def secretInputs_def immutableChecks_def HasError_def Append_def Let_def
      apiSecretOf_def setSecret_def)

text \<open>
  Away from that input the modifier does what the claim says. Let \<open>stateValue\<close> and
  \<open>configValue\<close> be what reading the correlated input \<^verbatim>\<open>value\<close> from the prior state
  and from the config yields, with the diagnostics \<open>diags1\<close> and \<open>diags2\<close>. If the
  attribute has a non-null prior state, an unknown planned value and a config value
  that is not unknown, if no error diagnostic was present before and none is raised
  by the two reads, and if the correlated input has the same known value \<open>v\<close> in
  config and prior state, the planned value becomes the prior state value. If the
  correlated input is not \<^verbatim>\<open>Equal\<close> in config and prior state, and so in particular if
  it is unknown in the config and not in the prior state, the planned value is left
  as it was.
\<close>

lemma PlanModifyString_secretValueUnchanged:
  assumes "ReqState req (AtName ''value'' (ParentPath (ReqPath req))) = (diags1, stateValue)"
    and "ReqConfig req (AtName ''value'' (ParentPath (ReqPath req))) = (diags2, configValue)"
  shows "(\<not> IsNull (StateValue req) \<and> IsUnknown (PlanValue resp) \<and> \<not> IsUnknown (ConfigValue req) \<and>
          \<not> HasError (RespDiagnostics resp) \<and> \<not> HasError diags1 \<and> \<not> HasError diags2 \<and>
          configValue = StringValue v \<and> stateValue = StringValue v \<longrightarrow>
            PlanValue (PlanModifyString secretValueUnchanged req resp) = StateValue req) \<and>
         (\<not> Equal stateValue configValue \<longrightarrow>
            PlanValue (PlanModifyString secretValueUnchanged req resp) = PlanValue resp) \<and>
         (IsUnknown configValue \<and> \<not> IsUnknown stateValue \<longrightarrow>
            PlanValue (PlanModifyString secretValueUnchanged req resp) = PlanValue resp)"
proof -
  have e: "IsUnknown configValue \<and> \<not> IsUnknown stateValue \<Longrightarrow> \<not> Equal stateValue configValue"
    by (cases stateValue; cases configValue) simp_all
  have c: "secretValueUnchanged req =
             (Equal stateValue configValue, Append (Append [] diags1) diags2)"
    using assms by (simp add: secretValueUnchanged_def Let_def)
  show ?thesis
    using e by (auto simp: PlanModifyString_def c Let_def HasError_Append HasError_Nil)
qed

section \<open>The standalone app-secret resource: properties\<close>

text \<open>
  Claim C10. When the state decodes without error and the refresh fails with a GraphQL
  error list of exactly one entry, the not-found test of \<^verbatim>\<open>Read\<close> indexes element 1 of
  that list, which is out of range: \<^verbatim>\<open>Read\<close> panics, and neither removes the resource
  nor reports the error.
\<close>

theorem read_single_error_panics:
  assumes "GetSecrets c (ValueString (AppID data)) = (Some (GqlErrorList errList), rep)"
    and "length errList = 1" and "\<not> HasError getDiags"
  shows "Read c getDiags data = Inl (IndexOutOfRange 1 1)"
  using assms
  by (simp add: Read_def refreshSecret_def isNotFound_def index_def HasError_Append HasError_Nil)

theorem read_single_error_panics_witness:
  "Read (constClient None (None, [])
          (Some (GqlErrorList [\<lparr>Message = ''Could not find App'', Path = ''app'',
                                Extensions = [(''code'', ''NOT_FOUND'')]\<rparr>]), []))
     []
     \<lparr>AppID = StringValue ''app'', ID = StringValue ''i'', SecretName = StringValue ''TEST'',
      SecretValue = StringValue ''43'', SecretDigest = StringValue ''d1'',
      SecretCreatedAt = StringValue ''t1''\<rparr> = Inl (IndexOutOfRange 1 1)"
proof -
  let ?e = "[\<lparr>Message = ''Could not find App'', Path = ''app'', Extensions = [(''code'', ''NOT_FOUND'')]\<rparr>]"
  let ?c = "constClient None (None, []) (Some (GqlErrorList ?e), [])"
  let ?d = "\<lparr>AppID = StringValue ''app'', ID = StringValue ''i'', SecretName = StringValue ''TEST'',
      SecretValue = StringValue ''43'', SecretDigest = StringValue ''d1'',
      SecretCreatedAt = StringValue ''t1''\<rparr>"
  have h1: "GetSecrets ?c (ValueString (AppID ?d)) = (Some (GqlErrorList ?e), [])"
    by (simp add: constClient_def)
  have h2: "length ?e = 1" by simp
  have h3: "\<not> HasError []" by (rule HasError_Nil)
  show ?thesis
    by (rule read_single_error_panics [OF h1 h2 h3])
qed

end
